theory Spec2Isabelle
  imports Complex_Main "HOL-Library.Multiset"
begin

section \<open>Data model of \<^verbatim>\<open>point_search.py\<close>\<close>

text \<open>
  Numbers. The coordinates, half-widths and radii of the program are Python floats
  (\<^verbatim>\<open>read_points\<close> produces \<^verbatim>\<open>float\<close>s, \<^verbatim>\<open>_quadratic_interpolate\<close> converts with
  \<^verbatim>\<open>float(...)\<close>). Two models of them are used.

  The first takes them as exact reals: \<open>+\<close>, \<open>-\<close>, \<open>*\<close>, \<open>/\<close> and \<open>sqrt\<close> neither round
  nor overflow, and \<open>/\<close> is the division of floats. The queries and the radius search are
  modelled so. A general theorem about them is a statement about this exact arithmetic;
  on the concrete inputs used for them, every comparison the code makes is either between
  values that binary64 represents and computes exactly or decided by a margin far above
  the rounding error, so the Python program takes the same branches there.

  Rounding decides whether the assertion of \<^verbatim>\<open>add_point\<close> holds. The insertion path
  (\<^verbatim>\<open>_is_in_box\<close>, \<^verbatim>\<open>add_point\<close>, \<^verbatim>\<open>make_tree\<close>) is therefore modelled a second time,
  with the rounding of binary64 written out at every operation (the functions named
  \<open>\<dots>64\<close> below).

  Counts are Python \<^verbatim>\<open>int\<close>s and are modelled as \<open>int\<close>.

  \<^verbatim>\<open>Point = collections.namedtuple('Point', ['x', 'y'])\<close>: the fields are named
  \<open>px\<close> and \<open>py\<close> here, so that \<open>x\<close> and \<open>y\<close> stay free for variables.
\<close>

datatype point = Point (px: real) (py: real)

text \<open>
  \<^verbatim>\<open>class QuadTree\<close>: the attributes \<^verbatim>\<open>_center\<close>, \<^verbatim>\<open>_width\<close>, \<^verbatim>\<open>_points\<close>,
  \<^verbatim>\<open>_ll\<close>, \<^verbatim>\<open>_ul\<close>, \<^verbatim>\<open>_lr\<close>, \<^verbatim>\<open>_ur\<close>. A child slot is \<^verbatim>\<open>None\<close> or a
  \<^verbatim>\<open>QuadTree\<close> object; the class defines neither \<^verbatim>\<open>__bool__\<close> nor \<^verbatim>\<open>__len__\<close>, so
  the truth test \<^verbatim>\<open>if not self._ll\<close> is exactly the test for \<^verbatim>\<open>None\<close>.
\<close>

datatype quadtree =
  QuadTree (center: point) (width: real) (points: "point list")
    (ll: "quadtree option") (ul: "quadtree option")
    (lr: "quadtree option") (ur: "quadtree option")

text \<open>The exceptions the modelled code can raise.\<close>

datatype error = AssertionError | ZeroDivisionError | ValueError

text \<open>\<^verbatim>\<open>QuadTree.__init__(center, halfwidth)\<close>: no children, no points.\<close>

definition new_tree :: "point \<Rightarrow> real \<Rightarrow> quadtree" where
  "new_tree c h = QuadTree c h [] None None None None"

definition MAX_TREE_RESOLUTION :: real where
  "MAX_TREE_RESOLUTION = 5 / 2"

section \<open>Operations of the quad tree\<close>

text \<open>
  \<^verbatim>\<open>QuadTree._is_in_box\<close>, on the node's center and half-width, in exact arithmetic:
  the test for the square \<open>[center.x \<plusminus> halfwidth] \<times> [center.y \<plusminus> halfwidth]\<close> itself.
\<close>

definition is_in_box :: "point \<Rightarrow> real \<Rightarrow> point \<Rightarrow> bool" where
  "is_in_box c w p \<longleftrightarrow>
     px p \<ge> px c - w \<and> px p \<le> px c + w \<and> py p \<ge> py c - w \<and> py p \<le> py c + w"

text \<open>\<^verbatim>\<open>QuadTree.max_radius\<close>.\<close>

definition max_radius :: "quadtree \<Rightarrow> real" where
  "max_radius t = width t * sqrt 2"

text \<open>
  The child slot to recurse into: the existing child, or the one \<^verbatim>\<open>add_point\<close> creates
  first (\<^verbatim>\<open>if not self._ll: self._ll = QuadTree(...)\<close>).
\<close>

definition child_or_new :: "quadtree option \<Rightarrow> point \<Rightarrow> real \<Rightarrow> quadtree" where
  "child_or_new slot c h = (case slot of None \<Rightarrow> new_tree c h | Some t \<Rightarrow> t)"

text \<open>
  \<^verbatim>\<open>QuadTree.add_point\<close>, in exact arithmetic (\<open>add_point64\<close> below is the same
  function with the rounding of binary64). The method mutates the tree in place; the
  model returns the updated tree. The \<^verbatim>\<open>assert\<close> is the error branch: a failed assertion in a recursive call
  propagates to the caller.

  The recursion either descends into an existing child (the tree gets smaller) or into a
  fresh child of half the width, which happens only while the width exceeds the
  resolution constant.
\<close>

function add_point :: "quadtree \<Rightarrow> point \<Rightarrow> error + quadtree" where
  "add_point (QuadTree c w pts cll cul clr cur) p =
    (if \<not> is_in_box c w p then Inl AssertionError
     else if w \<le> MAX_TREE_RESOLUTION then Inr (QuadTree c w (pts @ [p]) cll cul clr cur)
     else if px p < px c then
       (if py p < py c then
          (case add_point (child_or_new cll (Point (px c - w / 2) (py c - w / 2)) (w / 2)) p of
             Inl e \<Rightarrow> Inl e
           | Inr t \<Rightarrow> Inr (QuadTree c w pts (Some t) cul clr cur))
        else
          (case add_point (child_or_new cul (Point (px c - w / 2) (py c + w / 2)) (w / 2)) p of
             Inl e \<Rightarrow> Inl e
           | Inr t \<Rightarrow> Inr (QuadTree c w pts cll (Some t) clr cur)))
     else
       (if py p < py c then
          (case add_point (child_or_new clr (Point (px c + w / 2) (py c - w / 2)) (w / 2)) p of
             Inl e \<Rightarrow> Inl e
           | Inr t \<Rightarrow> Inr (QuadTree c w pts cll cul (Some t) cur))
        else
          (case add_point (child_or_new cur (Point (px c + w / 2) (py c + w / 2)) (w / 2)) p of
             Inl e \<Rightarrow> Inl e
           | Inr t \<Rightarrow> Inr (QuadTree c w pts cll cul clr (Some t)))))"
  by pat_completeness auto

lemma ceil_half_less: "5 / 2 < (w::real) \<Longrightarrow> nat \<lceil>w / 2\<rceil> < nat \<lceil>w\<rceil>"
  by linarith

lemma size_option_pos: "Suc 0 \<le> size_option f s"
  by (cases s) simp_all

lemma add_point_descends:
  assumes "\<not> w \<le> MAX_TREE_RESOLUTION" and "slot \<in> {cll, cul, clr, cur}"
  shows "((child_or_new slot c' (w / 2), p), (QuadTree c w pts cll cul clr cur, p))
    \<in> (\<lambda>(t, p). size t) <*mlex*> measure (\<lambda>(t, p). nat \<lceil>width t\<rceil>)"
proof (cases slot)
  case None
  have "nat \<lceil>w / 2\<rceil> < nat \<lceil>w\<rceil>"
    using assms(1) by (intro ceil_half_less) (simp add: MAX_TREE_RESOLUTION_def)
  then show ?thesis
    using None size_option_pos [of size cll] size_option_pos [of size cul]
      size_option_pos [of size clr] size_option_pos [of size cur]
    by (intro mlex_leq) (simp_all add: child_or_new_def new_tree_def)
next
  case (Some t)
  then show ?thesis
    using assms(2) by (intro mlex_less) (auto simp: child_or_new_def)
qed

termination add_point
proof (relation "(\<lambda>(t, p). size t) <*mlex*> measure (\<lambda>(t, p). nat \<lceil>width t\<rceil>)", goal_cases)
  case 1
  show ?case by (simp add: wf_mlex)
qed (simp_all add: add_point_descends)

text \<open>
  \<^verbatim>\<open>QuadTree.all_points\<close>: the generator's output as a list, in the order it yields:
  the node's own points, then the children \<^verbatim>\<open>_ll\<close>, \<^verbatim>\<open>_ul\<close>, \<^verbatim>\<open>_lr\<close>, \<^verbatim>\<open>_ur\<close>.
\<close>

fun all_points :: "quadtree \<Rightarrow> point list" where
  "all_points (QuadTree c w pts cll cul clr cur) =
     pts
     @ (case cll of None \<Rightarrow> [] | Some t \<Rightarrow> all_points t)
     @ (case cul of None \<Rightarrow> [] | Some t \<Rightarrow> all_points t)
     @ (case clr of None \<Rightarrow> [] | Some t \<Rightarrow> all_points t)
     @ (case cur of None \<Rightarrow> [] | Some t \<Rightarrow> all_points t)"

text \<open>The test on a stored point in \<^verbatim>\<open>points_in_box\<close>: the closed rectangle.\<close>

definition in_rect :: "point \<Rightarrow> point \<Rightarrow> point \<Rightarrow> bool" where
  "in_rect lower_left upper_right p \<longleftrightarrow>
     px p \<ge> px lower_left \<and> py p \<ge> py lower_left \<and>
     px p \<le> px upper_right \<and> py p \<le> py upper_right"

text \<open>
  \<^verbatim>\<open>QuadTree.points_in_box\<close>, the generator's output as a list. The four tests on the
  children are the source's: \<^verbatim>\<open>lower_left.x < self._center.x\<close>,
  \<^verbatim>\<open>upper_right.x > self._center.x\<close>, and the same in \<open>y\<close>, each strict.
\<close>

fun points_in_box :: "quadtree \<Rightarrow> point \<Rightarrow> point \<Rightarrow> point list" where
  "points_in_box (QuadTree c w pts cll cul clr cur) lower_left upper_right =
     filter (in_rect lower_left upper_right) pts
     @ (if px lower_left < px c then
          (if py lower_left < py c
           then (case cll of None \<Rightarrow> [] | Some t \<Rightarrow> points_in_box t lower_left upper_right)
           else [])
          @ (if py upper_right > py c
             then (case cul of None \<Rightarrow> [] | Some t \<Rightarrow> points_in_box t lower_left upper_right)
             else [])
        else [])
     @ (if px upper_right > px c then
          (if py lower_left < py c
           then (case clr of None \<Rightarrow> [] | Some t \<Rightarrow> points_in_box t lower_left upper_right)
           else [])
          @ (if py upper_right > py c
             then (case cur of None \<Rightarrow> [] | Some t \<Rightarrow> points_in_box t lower_left upper_right)
             else [])
        else [])"

text \<open>\<^verbatim>\<open>QuadTree.points_in_radius\<close>: the two early returns, then the box query filtered
  by the squared distance.\<close>

definition points_in_radius :: "quadtree \<Rightarrow> point \<Rightarrow> real \<Rightarrow> point list" where
  "points_in_radius t centroid radius =
     (if \<bar>px centroid - px (center t)\<bar> > radius + width t then []
      else if \<bar>py centroid - py (center t)\<bar> > radius + width t then []
      else
        (let r_sq = radius ^ 2 in
         filter (\<lambda>p. (px p - px centroid) ^ 2 + (py p - py centroid) ^ 2 \<le> r_sq)
           (points_in_box t
              (Point (px centroid - radius) (py centroid - radius))
              (Point (px centroid + radius) (py centroid + radius)))))"

section \<open>Building a tree and searching it\<close>

text \<open>Python's \<^verbatim>\<open>min\<close> and \<^verbatim>\<open>max\<close> of a list: \<^verbatim>\<open>ValueError\<close> on the empty list.\<close>

fun min_of :: "real list \<Rightarrow> error + real" where
  "min_of [] = Inl ValueError"
| "min_of (v # vs) = Inr (fold min vs v)"

fun max_of :: "real list \<Rightarrow> error + real" where
  "max_of [] = Inl ValueError"
| "max_of (v # vs) = Inr (fold max vs v)"

text \<open>The loop \<^verbatim>\<open>for point in points: tree.add_point(point)\<close>.\<close>

fun add_points :: "quadtree \<Rightarrow> point list \<Rightarrow> error + quadtree" where
  "add_points t [] = Inr t"
| "add_points t (p # ps) =
     (case add_point t p of Inl e \<Rightarrow> Inl e | Inr t' \<Rightarrow> add_points t' ps)"

text \<open>\<^verbatim>\<open>make_tree\<close>, in exact arithmetic.\<close>

definition make_tree :: "point list \<Rightarrow> error + quadtree" where
  "make_tree pts =
     (case min_of (map px pts) of Inl e \<Rightarrow> Inl e | Inr xmin \<Rightarrow>
      case max_of (map px pts) of Inl e \<Rightarrow> Inl e | Inr xmax \<Rightarrow>
      case min_of (map py pts) of Inl e \<Rightarrow> Inl e | Inr ymin \<Rightarrow>
      case max_of (map py pts) of Inl e \<Rightarrow> Inl e | Inr ymax \<Rightarrow>
        add_points
          (new_tree (Point ((xmax + xmin) / 2) ((ymax + ymin) / 2))
             (max (xmax - xmin) (ymax - ymin) / 2 + 1 / 1000))
          pts)"

text \<open>
  \<^verbatim>\<open>near_points\<close>: the set \<^verbatim>\<open>pts\<close> is filled by the two nested loops.
\<close>

definition near_points :: "quadtree \<Rightarrow> point list \<Rightarrow> real \<Rightarrow> point set" where
  "near_points tree centroids radius =
     fold (\<lambda>centroid pts. fold insert (points_in_radius tree centroid radius) pts)
       centroids {}"

text \<open>
  \<^verbatim>\<open>_quadratic_interpolate\<close>, after the conversions \<^verbatim>\<open>float(...)\<close> of its arguments.
  The four assertions, \<^verbatim>\<open>math.sqrt\<close> of a negative number (\<^verbatim>\<open>ValueError\<close>) and a float
  division by zero (\<^verbatim>\<open>ZeroDivisionError\<close>) are the error branches, in the order in which
  Python evaluates them.
\<close>

definition quadratic_interpolate :: "real \<Rightarrow> real \<Rightarrow> real \<Rightarrow> real \<Rightarrow> real \<Rightarrow> error + real" where
  "quadratic_interpolate x1 y1 x2 y2 target_y =
     (if \<not> x2 > x1 then Inl AssertionError
      else if \<not> y2 \<ge> y1 then Inl AssertionError
      else if \<not> x1 \<ge> 0 then Inl AssertionError
      else if \<not> y1 \<ge> 0 then Inl AssertionError
      else if x1 = 0 then
        (if y2 = 0 then Inl ZeroDivisionError
         else if target_y / y2 < 0 then Inl ValueError
         else Inr (x2 * sqrt (target_y / y2)))
      else
        (let d = x1 * x2 * (x2 - x1) in
         if d = 0 then Inl ZeroDivisionError
         else
           (let a = (x1 * y2 - x2 * y1) / d;
                b = (x2 ^ 2 * y1 - x1 ^ 2 * y2) / d
            in if 4 * a * target_y + b ^ 2 < 0 then Inl ValueError
               else if 2 * a = 0 then Inl ZeroDivisionError
               else Inr ((sqrt (4 * a * target_y + b ^ 2) - b) / (2 * a)))))"

text \<open>
  What \<^verbatim>\<open>newton_search\<close> writes to \<^verbatim>\<open>sys.stderr\<close>, and the second component of the
  pair it returns: a count (\<^verbatim>\<open>len(...)\<close>) on every path but the first, where line 220
  returns the set \<^verbatim>\<open>near_points(tree, centroids, 0)\<close> itself.
\<close>

datatype message = Trying_radius real | Warning

datatype found = Count int | Points "point set"

text \<open>
  The \<^verbatim>\<open>while\<close> loop of \<^verbatim>\<open>newton_search\<close> (lines 235 to 251). A run that does not
  return is the value \<open>None\<close>; an exception is \<open>Some (stderr, Inl e)\<close>, with what was
  written to \<^verbatim>\<open>sys.stderr\<close> until then.
\<close>

partial_function (option) newton_loop ::
  "quadtree \<Rightarrow> point list \<Rightarrow> int \<Rightarrow> real \<Rightarrow> int \<Rightarrow> real \<Rightarrow> int \<Rightarrow> message list
     \<Rightarrow> (message list \<times> (error + real \<times> found)) option" where
  "newton_loop tree centroids target_count low_radius low_count high_radius high_count stderr =
     (if high_radius - low_radius > 1 / 1000000 then
        (case quadratic_interpolate low_radius (of_int low_count) high_radius
                (of_int high_count) (of_int target_count) of
           Inl e \<Rightarrow> Some (stderr, Inl e)
         | Inr mid_radius \<Rightarrow>
             if \<not> mid_radius < high_radius then
               Some (stderr @ [Trying_radius mid_radius], Inl AssertionError)
             else if \<not> mid_radius > low_radius then
               Some (stderr @ [Trying_radius mid_radius], Inl AssertionError)
             else
               (let mid_count = int (card (near_points tree centroids mid_radius)) in
                if \<bar>of_int (mid_count - target_count) :: real\<bar> < 1 / 2 then
                  Some (stderr @ [Trying_radius mid_radius], Inr (mid_radius, Count mid_count))
                else if mid_count < target_count then
                  newton_loop tree centroids target_count mid_radius mid_count
                    high_radius high_count (stderr @ [Trying_radius mid_radius])
                else
                  newton_loop tree centroids target_count low_radius low_count
                    mid_radius mid_count (stderr @ [Trying_radius mid_radius])))
      else Some (stderr @ [Warning], Inr (high_radius, Count high_count)))"

text \<open>\<^verbatim>\<open>newton_search\<close>.\<close>

definition newton_search ::
  "quadtree \<Rightarrow> point list \<Rightarrow> real \<Rightarrow> int
     \<Rightarrow> (message list \<times> (error + real \<times> found)) option" where
  "newton_search tree centroids radius target_count =
     (if target_count \<le> 0 then Some ([], Inr (0, Points (near_points tree centroids 0)))
      else
        (let low_radius = radius;
             low_count = int (card (near_points tree centroids radius))
         in if low_count = target_count then Some ([], Inr (radius, Count low_count))
            else
              (let high_radius = max_radius tree;
                   high_count = int (card (set (all_points tree)))
               in if high_count \<le> target_count then Some ([], Inr (high_radius, Count high_count))
                  else if low_count > target_count then
                    newton_loop tree centroids target_count 0 0 low_radius low_count []
                  else
                    newton_loop tree centroids target_count low_radius low_count
                      high_radius high_count [])))"

section \<open>The insertion path in binary64\<close>

text \<open>
  Rounding to the nearest binary64 number, ties to the even significand. \<open>ulp x\<close> is the
  spacing of the binary64 numbers around \<open>x\<close>: the power of two \<open>2\<^sup>e\<close> with
  \<open>2\<^sup>5\<^sup>2 * 2\<^sup>e \<le> \<bar>x\<bar> < 2\<^sup>5\<^sup>3 * 2\<^sup>e\<close>, kept between \<open>2\<^sup>-\<^sup>1\<^sup>0\<^sup>7\<^sup>4\<close> (the spacing
  of the subnormal numbers) and \<open>2\<^sup>9\<^sup>7\<^sup>1\<close> (the spacing below the largest number). It is
  found by halving or doubling from \<open>1\<close>. The values \<^verbatim>\<open>inf\<close> and \<^verbatim>\<open>nan\<close> are not
  modelled: \<open>fl\<close> is the result of a binary64 operation whose exact result \<open>x\<close> is below
  \<open>2\<^sup>1\<^sup>0\<^sup>2\<^sup>4\<close> in magnitude, as every operation on the inputs below is.
\<close>

definition round_half_even :: "real \<Rightarrow> int" where
  "round_half_even r =
     (let f = \<lfloor>r\<rfloor> in
      if r - of_int f < 1 / 2 then f
      else if r - of_int f > 1 / 2 then f + 1
      else if even f then f else f + 1)"

function ulp_down :: "nat \<Rightarrow> real \<Rightarrow> real \<Rightarrow> real" where
  "ulp_down n x u =
     (if n = 0 \<or> \<not> \<bar>x\<bar> < 2 ^ 52 * u then u else ulp_down (n - 1) x (u / 2))"
  by pat_completeness auto
termination
  by (relation "measure (\<lambda>(n, x, u). n)") auto

function ulp_up :: "nat \<Rightarrow> real \<Rightarrow> real \<Rightarrow> real" where
  "ulp_up n x u =
     (if n = 0 \<or> \<not> 2 ^ 53 * u \<le> \<bar>x\<bar> then u else ulp_up (n - 1) x (2 * u))"
  by pat_completeness auto
termination
  by (relation "measure (\<lambda>(n, x, u). n)") auto

declare ulp_down.simps [simp del] ulp_up.simps [simp del]

definition ulp :: "real \<Rightarrow> real" where
  "ulp x = (if 2 ^ 53 \<le> \<bar>x\<bar> then ulp_up 971 x 1 else ulp_down 1074 x 1)"

definition fl :: "real \<Rightarrow> real" where
  "fl x = (let u = ulp x in of_int (round_half_even (x / u)) * u)"

text \<open>
  \<^verbatim>\<open>QuadTree._is_in_box\<close> in binary64: the four bounds \<^verbatim>\<open>self._center.x - self._width\<close>
  and so on are rounded before the comparison.
\<close>

definition is_in_box64 :: "point \<Rightarrow> real \<Rightarrow> point \<Rightarrow> bool" where
  "is_in_box64 c w p \<longleftrightarrow>
     px p \<ge> fl (px c - w) \<and> px p \<le> fl (px c + w) \<and>
     py p \<ge> fl (py c - w) \<and> py p \<le> fl (py c + w)"

text \<open>
  \<^verbatim>\<open>QuadTree.add_point\<close> in binary64. The coordinates of a new child's center,
  \<^verbatim>\<open>self._center.x - self._width / 2\<close> and so on, are rounded. The quotient
  \<^verbatim>\<open>self._width / 2\<close> itself is written without rounding: it is computed only where
  the width exceeds \<open>2.5\<close>, and halving a binary64 number of that size is exact.
\<close>

function add_point64 :: "quadtree \<Rightarrow> point \<Rightarrow> error + quadtree" where
  "add_point64 (QuadTree c w pts cll cul clr cur) p =
    (if \<not> is_in_box64 c w p then Inl AssertionError
     else if w \<le> MAX_TREE_RESOLUTION then Inr (QuadTree c w (pts @ [p]) cll cul clr cur)
     else if px p < px c then
       (if py p < py c then
          (case add_point64
                  (child_or_new cll (Point (fl (px c - w / 2)) (fl (py c - w / 2))) (w / 2)) p of
             Inl e \<Rightarrow> Inl e
           | Inr t \<Rightarrow> Inr (QuadTree c w pts (Some t) cul clr cur))
        else
          (case add_point64
                  (child_or_new cul (Point (fl (px c - w / 2)) (fl (py c + w / 2))) (w / 2)) p of
             Inl e \<Rightarrow> Inl e
           | Inr t \<Rightarrow> Inr (QuadTree c w pts cll (Some t) clr cur)))
     else
       (if py p < py c then
          (case add_point64
                  (child_or_new clr (Point (fl (px c + w / 2)) (fl (py c - w / 2))) (w / 2)) p of
             Inl e \<Rightarrow> Inl e
           | Inr t \<Rightarrow> Inr (QuadTree c w pts cll cul (Some t) cur))
        else
          (case add_point64
                  (child_or_new cur (Point (fl (px c + w / 2)) (fl (py c + w / 2))) (w / 2)) p of
             Inl e \<Rightarrow> Inl e
           | Inr t \<Rightarrow> Inr (QuadTree c w pts cll cul clr (Some t)))))"
  by pat_completeness auto
termination
proof (relation "(\<lambda>(t, p). size t) <*mlex*> measure (\<lambda>(t, p). nat \<lceil>width t\<rceil>)", goal_cases)
  case 1
  show ?case by (simp add: wf_mlex)
qed (simp_all add: add_point_descends)

fun add_points64 :: "quadtree \<Rightarrow> point list \<Rightarrow> error + quadtree" where
  "add_points64 t [] = Inr t"
| "add_points64 t (p # ps) =
     (case add_point64 t p of Inl e \<Rightarrow> Inl e | Inr t' \<Rightarrow> add_points64 t' ps)"

text \<open>
  \<^verbatim>\<open>make_tree\<close> in binary64. The literal \<^verbatim>\<open>0.001\<close> is the binary64 number nearest to
  \<open>1 / 1000\<close>; \<^verbatim>\<open>min\<close> and \<^verbatim>\<open>max\<close> compare and do not round.
\<close>

definition make_tree64 :: "point list \<Rightarrow> error + quadtree" where
  "make_tree64 pts =
     (case min_of (map px pts) of Inl e \<Rightarrow> Inl e | Inr xmin \<Rightarrow>
      case max_of (map px pts) of Inl e \<Rightarrow> Inl e | Inr xmax \<Rightarrow>
      case min_of (map py pts) of Inl e \<Rightarrow> Inl e | Inr ymin \<Rightarrow>
      case max_of (map py pts) of Inl e \<Rightarrow> Inl e | Inr ymax \<Rightarrow>
        add_points64
          (new_tree (Point (fl (fl (xmax + xmin) / 2)) (fl (fl (ymax + ymin) / 2)))
             (fl (fl (max (fl (xmax - xmin)) (fl (ymax - ymin)) / 2) + fl (1 / 1000))))
          pts)"

section \<open>Invariants of the tree\<close>

text \<open>
  The region invariant of the specification: at every node, each point stored at the
  node or below it lies in the node's square
  \<open>[center.x \<plusminus> halfwidth] \<times> [center.y \<plusminus> halfwidth]\<close>, which is the test of
  \<^verbatim>\<open>_is_in_box\<close>.
\<close>

fun region_invariant :: "quadtree \<Rightarrow> bool" where
  "region_invariant (QuadTree c w pts cll cul clr cur) \<longleftrightarrow>
     (\<forall>p \<in> set (all_points (QuadTree c w pts cll cul clr cur)). is_in_box c w p)
     \<and> (case cll of None \<Rightarrow> True | Some t \<Rightarrow> region_invariant t)
     \<and> (case cul of None \<Rightarrow> True | Some t \<Rightarrow> region_invariant t)
     \<and> (case clr of None \<Rightarrow> True | Some t \<Rightarrow> region_invariant t)
     \<and> (case cur of None \<Rightarrow> True | Some t \<Rightarrow> region_invariant t)"

text \<open>
  The shape \<^verbatim>\<open>add_point\<close> gives the tree: a child in a slot has the center and the
  half-width with which \<^verbatim>\<open>add_point\<close> creates the child of that slot.
\<close>

definition placed :: "quadtree option \<Rightarrow> point \<Rightarrow> real \<Rightarrow> bool" where
  "placed slot c h \<longleftrightarrow> (case slot of None \<Rightarrow> True | Some t \<Rightarrow> center t = c \<and> width t = h)"

fun well_placed :: "quadtree \<Rightarrow> bool" where
  "well_placed (QuadTree c w pts cll cul clr cur) \<longleftrightarrow>
     placed cll (Point (px c - w / 2) (py c - w / 2)) (w / 2)
     \<and> placed cul (Point (px c - w / 2) (py c + w / 2)) (w / 2)
     \<and> placed clr (Point (px c + w / 2) (py c - w / 2)) (w / 2)
     \<and> placed cur (Point (px c + w / 2) (py c + w / 2)) (w / 2)
     \<and> (case cll of None \<Rightarrow> True | Some t \<Rightarrow> well_placed t)
     \<and> (case cul of None \<Rightarrow> True | Some t \<Rightarrow> well_placed t)
     \<and> (case clr of None \<Rightarrow> True | Some t \<Rightarrow> well_placed t)
     \<and> (case cur of None \<Rightarrow> True | Some t \<Rightarrow> well_placed t)"

text \<open>
  The routing of \<^verbatim>\<open>add_point\<close>: the points below a left child have
  \<open>x < center.x\<close>, those below a right child \<open>x \<ge> center.x\<close>, and the same in \<open>y\<close> for
  lower and upper children.
\<close>

fun routed :: "quadtree \<Rightarrow> bool" where
  "routed (QuadTree c w pts cll cul clr cur) \<longleftrightarrow>
     (case cll of None \<Rightarrow> True
      | Some t \<Rightarrow> (\<forall>p \<in> set (all_points t). px p < px c \<and> py p < py c) \<and> routed t)
     \<and> (case cul of None \<Rightarrow> True
      | Some t \<Rightarrow> (\<forall>p \<in> set (all_points t). px p < px c \<and> \<not> py p < py c) \<and> routed t)
     \<and> (case clr of None \<Rightarrow> True
      | Some t \<Rightarrow> (\<forall>p \<in> set (all_points t). \<not> px p < px c \<and> py p < py c) \<and> routed t)
     \<and> (case cur of None \<Rightarrow> True
      | Some t \<Rightarrow> (\<forall>p \<in> set (all_points t). \<not> px p < px c \<and> \<not> py p < py c) \<and> routed t)"

text \<open>What a successful \<^verbatim>\<open>add_point\<close> of \<open>p\<close> makes of a tree \<open>t\<close>.\<close>

definition added :: "quadtree \<Rightarrow> point \<Rightarrow> quadtree \<Rightarrow> bool" where
  "added t p t' \<longleftrightarrow>
     well_placed t' \<and> region_invariant t' \<and> center t' = center t \<and> width t' = width t
     \<and> mset (all_points t') = add_mset p (mset (all_points t))"

section \<open>The concrete inputs of the tests\<close>

text \<open>
  The root of \<^verbatim>\<open>test_quad_tree_large\<close> with one of its points:
  \<^verbatim>\<open>tree = QuadTree(Point(0, 0), 8); tree.add_point(Point(0, 0))\<close>.
\<close>

definition origin_tree :: quadtree where
  "origin_tree =
     QuadTree (Point 0 0) 8 [] None None None
       (Some (QuadTree (Point 4 4) 4 []
          (Some (QuadTree (Point 2 2) 2 [Point 0 0] None None None None)) None None None))"

text \<open>
  The tree of \<^verbatim>\<open>test_quad_tree_small\<close>: a root centered at \<open>(0, 0)\<close> of half-width
  \<open>1\<close>, below the resolution constant, so it keeps its four points itself.
\<close>

definition small_tree :: quadtree where
  "small_tree =
     QuadTree (Point 0 0) 1 [Point (- 1) (- 1), Point 1 1, Point 0 0, Point (1 / 2) (1 / 2)]
       None None None None"

text \<open>The points of \<^verbatim>\<open>test_newton_search\<close> and the tree \<^verbatim>\<open>make_tree\<close> builds of them.\<close>

definition scenario_points :: "point list" where
  "scenario_points =
     [Point 0 0, Point (- 8) (- 8), Point 8 8, Point 0 8, Point 8 0, Point 0 0, Point 4 4]"

definition scenario_tree :: quadtree where
  "scenario_tree =
     QuadTree (Point 0 0) (8001 / 1000) []
       (Some (QuadTree (Point (- (8001 / 2000)) (- (8001 / 2000))) (8001 / 2000) []
          (Some (QuadTree (Point (- (24003 / 4000)) (- (24003 / 4000))) (8001 / 4000)
             [Point (- 8) (- 8)] None None None None))
          None None None))
       None None
       (Some (QuadTree (Point (8001 / 2000) (8001 / 2000)) (8001 / 2000) []
          (Some (QuadTree (Point (8001 / 4000) (8001 / 4000)) (8001 / 4000)
             [Point 0 0, Point 0 0, Point 4 4] None None None None))
          (Some (QuadTree (Point (8001 / 4000) (24003 / 4000)) (8001 / 4000)
             [Point 0 8] None None None None))
          (Some (QuadTree (Point (24003 / 4000) (8001 / 4000)) (8001 / 4000)
             [Point 8 0] None None None None))
          (Some (QuadTree (Point (24003 / 4000) (24003 / 4000)) (8001 / 4000)
             [Point 8 8] None None None None))))"

text \<open>
  The binary64 number that the literal \<^verbatim>\<open>0.1\<close> denotes, and the tree the binary64
  \<^verbatim>\<open>make_tree\<close> builds of the points \<open>(0, 0)\<close>, \<open>(8, 0)\<close>, \<open>(4, 0)\<close>: a root centered
  at \<open>(4, 0)\<close> of half-width \<^verbatim>\<open>4.001\<close>, whose upper right child has the center
  \<^verbatim>\<open>(6.000500000000001, 2.0005)\<close> and the half-width \<^verbatim>\<open>2.0005\<close>.
\<close>

definition tenth :: real where
  "tenth = 3602879701896397 / 36028797018963968"

definition rounded_child :: quadtree where
  "rounded_child =
     QuadTree
       (Point (3377981195504583 / 562949953421312) (4504725527277339 / 2251799813685248))
       (4504725527277339 / 2251799813685248) [Point 8 0, Point 4 0] None None None None"

definition rounded_tree :: quadtree where
  "rounded_tree =
     QuadTree (Point 4 0) (4504725527277339 / 1125899906842624) [] None
       (Some (QuadTree
          (Point (4502473727463653 / 2251799813685248) (4504725527277339 / 2251799813685248))
          (4504725527277339 / 2251799813685248) [Point 0 0] None None None None))
       None
       (Some rounded_child)"

section \<open>Basic facts\<close>

text \<open>
  The simplifier's conversion of \<open>set\<close> of a list comprehension into a set comprehension
  does not cope with the \<open>if\<close> and \<open>case\<close> nests of the generators above; it is
  switched off.
\<close>

declare TrueI [simproc del: list_to_set_comprehension]

lemma near_points_eq:
  "near_points tree centroids radius =
     (\<Union>c \<in> set centroids. set (points_in_radius tree c radius))"
proof -
  have ins: "fold insert xs S = set xs \<union> S" for xs :: "point list" and S
    by (induction xs arbitrary: S) auto
  have "fold (\<lambda>centroid pts. fold insert (points_in_radius tree centroid radius) pts) cs S
      = (\<Union>c \<in> set cs. set (points_in_radius tree c radius)) \<union> S" for cs S
    by (induction cs arbitrary: S) (auto simp: ins)
  then show ?thesis by (simp add: near_points_def)
qed

lemma add_origin: "add_point (new_tree (Point 0 0) 8) (Point 0 0) = Inr origin_tree"
  by (simp add: new_tree_def origin_tree_def is_in_box_def MAX_TREE_RESOLUTION_def
      child_or_new_def)

lemma make_scenario_tree: "make_tree scenario_points = Inr scenario_tree"
  by (simp add: make_tree_def scenario_points_def scenario_tree_def new_tree_def
      is_in_box_def MAX_TREE_RESOLUTION_def child_or_new_def)

lemma build_small_tree:
  "add_points (new_tree (Point 0 0) 1)
     [Point (- 1) (- 1), Point 1 1, Point 0 0, Point (1 / 2) (1 / 2)] = Inr small_tree"
  by (simp add: new_tree_def small_tree_def is_in_box_def MAX_TREE_RESOLUTION_def)

lemma scenario_near:
  "near_points scenario_tree [Point 4 5] (11 / 2) = {Point 8 8, Point 0 8, Point 4 4}"
  by (simp add: near_points_def points_in_radius_def scenario_tree_def in_rect_def
      power2_eq_square)

section \<open>Box and radius queries\<close>

text \<open>
  C2. The claim: \<^verbatim>\<open>points_in_box\<close> yields exactly the stored points of the closed
  rectangle, also when an edge of the rectangle lies on a node's center coordinate.

  The code misses such points. \<^verbatim>\<open>add_point\<close> sends a point with
  \<^verbatim>\<open>point.x == center.x\<close> to a right child (and \<^verbatim>\<open>point.y == center.y\<close> to an upper
  one), and \<^verbatim>\<open>points_in_box\<close> enters the right children only if
  \<^verbatim>\<open>upper_right.x > center.x\<close>. In the tree built by inserting \<open>(0, 0)\<close> into a root
  centered at \<open>(0, 0)\<close> of half-width \<open>8\<close>, the stored point \<open>(0, 0)\<close> lies in the closed
  rectangle from \<open>(-1, -1)\<close> to \<open>(0, 0)\<close>, and the query yields nothing.
\<close>

theorem points_in_box_misses_center_line:
  "add_point (new_tree (Point 0 0) 8) (Point 0 0) = Inr origin_tree
   \<and> all_points origin_tree = [Point 0 0]
   \<and> in_rect (Point (- 1) (- 1)) (Point 0 0) (Point 0 0)
   \<and> points_in_box origin_tree (Point (- 1) (- 1)) (Point 0 0) = []"
  by (simp add: add_origin) (simp add: origin_tree_def in_rect_def)

text \<open>
  C1. The claim: \<^verbatim>\<open>points_in_radius\<close> yields exactly the stored points at distance at
  most \<open>radius\<close> of the centroid, and \<^verbatim>\<open>near_points\<close> at radius \<open>0\<close> exactly the stored
  points equal to a centroid.

  The code misses a stored point whose coordinate equals a node's center coordinate when
  the enclosing square ends there, through the strict tests of \<^verbatim>\<open>points_in_box\<close>. The
  tree that \<^verbatim>\<open>make_tree\<close> builds of the points of \<^verbatim>\<open>test_newton_search\<close> is centered
  at \<open>(0, 0)\<close> and stores \<open>(0, 0)\<close>; at the centroid \<open>(0, 0)\<close> and radius \<open>0\<close> both queries
  are empty.
\<close>

theorem points_in_radius_zero_misses_centroid:
  "make_tree scenario_points = Inr scenario_tree
   \<and> Point 0 0 \<in> set (all_points scenario_tree)
   \<and> (px (Point 0 0) - px (Point 0 0)) ^ 2 + (py (Point 0 0) - py (Point 0 0)) ^ 2 \<le> (0::real) ^ 2
   \<and> points_in_radius scenario_tree (Point 0 0) 0 = []
   \<and> near_points scenario_tree [Point 0 0] 0 = {}"
  by (simp add: make_scenario_tree)
    (simp add: near_points_def points_in_radius_def scenario_tree_def in_rect_def)

text \<open>Membership in the result of \<^verbatim>\<open>points_in_box\<close>, child by child.\<close>

lemma in_points_in_box_iff:
  "q \<in> set (points_in_box (QuadTree c w pts cll cul clr cur) l u) \<longleftrightarrow>
     (q \<in> set pts \<and> in_rect l u q)
     \<or> (px l < px c \<and> py l < py c \<and> (\<exists>t. cll = Some t \<and> q \<in> set (points_in_box t l u)))
     \<or> (px l < px c \<and> py u > py c \<and> (\<exists>t. cul = Some t \<and> q \<in> set (points_in_box t l u)))
     \<or> (px u > px c \<and> py l < py c \<and> (\<exists>t. clr = Some t \<and> q \<in> set (points_in_box t l u)))
     \<or> (px u > px c \<and> py u > py c \<and> (\<exists>t. cur = Some t \<and> q \<in> set (points_in_box t l u)))"
  by (cases cll; cases cul; cases clr; cases cur) auto

lemma in_rect_mono:
  assumes "in_rect l1 u1 p"
    and "px l2 \<le> px l1" and "py l2 \<le> py l1" and "px u1 \<le> px u2" and "py u1 \<le> py u2"
  shows "in_rect l2 u2 p"
  using assms by (auto simp: in_rect_def)

lemma points_in_box_mono:
  assumes "px l2 \<le> px l1" and "py l2 \<le> py l1" and "px u1 \<le> px u2" and "py u1 \<le> py u2"
    and "q \<in> set (points_in_box t l1 u1)"
  shows "q \<in> set (points_in_box t l2 u2)"
  using assms
proof (induction t l1 u1 rule: points_in_box.induct)
  case (1 c w pts cll cul clr cur l1 u1)
  from "1.prems"(5) consider
      "q \<in> set pts" "in_rect l1 u1 q"
    | t where "px l1 < px c" "py l1 < py c" "cll = Some t" "q \<in> set (points_in_box t l1 u1)"
    | t where "px l1 < px c" "py u1 > py c" "cul = Some t" "q \<in> set (points_in_box t l1 u1)"
    | t where "px u1 > px c" "py l1 < py c" "clr = Some t" "q \<in> set (points_in_box t l1 u1)"
    | t where "px u1 > px c" "py u1 > py c" "cur = Some t" "q \<in> set (points_in_box t l1 u1)"
    unfolding in_points_in_box_iff by blast
  then show ?case
  proof cases
    case 1
    then show ?thesis
      using in_rect_mono [OF 1(2) "1.prems"(1-4)] by (simp add: in_points_in_box_iff)
  next
    case 2
    then show ?thesis
      using "1.IH"(1) [OF 2(1-3) "1.prems"(1-4) 2(4)] "1.prems"(1-4)
      by (simp add: in_points_in_box_iff)
  next
    case 3
    then show ?thesis
      using "1.IH"(2) [OF 3(1-3) "1.prems"(1-4) 3(4)] "1.prems"(1-4)
      by (simp add: in_points_in_box_iff)
  next
    case 4
    then show ?thesis
      using "1.IH"(3) [OF 4(1-3) "1.prems"(1-4) 4(4)] "1.prems"(1-4)
      by (simp add: in_points_in_box_iff)
  next
    case 5
    then show ?thesis
      using "1.IH"(4) [OF 5(1-3) "1.prems"(1-4) 5(4)] "1.prems"(1-4)
      by (simp add: in_points_in_box_iff)
  qed
qed

lemma points_in_radius_mono:
  assumes "0 \<le> r1" and "r1 \<le> r2"
  shows "set (points_in_radius t c r1) \<subseteq> set (points_in_radius t c r2)"
proof
  fix q
  assume "q \<in> set (points_in_radius t c r1)"
  then have near: "\<not> \<bar>px c - px (center t)\<bar> > r1 + width t"
      "\<not> \<bar>py c - py (center t)\<bar> > r1 + width t"
    and inbox: "q \<in> set (points_in_box t (Point (px c - r1) (py c - r1))
        (Point (px c + r1) (py c + r1)))"
    and dist: "(px q - px c) ^ 2 + (py q - py c) ^ 2 \<le> r1 ^ 2"
    by (auto simp: points_in_radius_def Let_def split: if_splits)
  have sq: "r1 ^ 2 \<le> r2 ^ 2"
    using assms by (simp add: power_mono)
  from dist sq have "(px q - px c) ^ 2 + (py q - py c) ^ 2 \<le> r2 ^ 2"
    by (rule order_trans)
  moreover have "q \<in> set (points_in_box t (Point (px c - r2) (py c - r2))
        (Point (px c + r2) (py c + r2)))"
    using assms by (intro points_in_box_mono [OF _ _ _ _ inbox]) simp_all
  moreover from near assms have "\<not> \<bar>px c - px (center t)\<bar> > r2 + width t"
      "\<not> \<bar>py c - py (center t)\<bar> > r2 + width t"
    by linarith+
  ultimately show "q \<in> set (points_in_radius t c r2)"
    by (simp add: points_in_radius_def Let_def)
qed

text \<open>
  C3. For every tree, every list of centroids and all radii \<open>0 \<le> r1 < r2\<close>, the set
  \<^verbatim>\<open>near_points(tree, centroids, r1)\<close> is a subset of
  \<^verbatim>\<open>near_points(tree, centroids, r2)\<close>: a larger radius passes the two early returns of
  \<^verbatim>\<open>points_in_radius\<close> whenever the smaller does, its enclosing square passes every
  pruning test the smaller square passes, and the distance filter is weaker.
\<close>

theorem near_points_monotone:
  assumes "0 \<le> r1" and "r1 < r2"
  shows "near_points tree centroids r1 \<subseteq> near_points tree centroids r2"
proof -
  have "set (points_in_radius tree c r1) \<subseteq> set (points_in_radius tree c r2)" for c
    using assms by (intro points_in_radius_mono) simp_all
  then show ?thesis
    unfolding near_points_eq by blast
qed

lemma scenario_near_small: "near_points scenario_tree [Point 4 5] 2 = {Point 4 4}"
  by (simp add: near_points_def points_in_radius_def scenario_tree_def in_rect_def
      power2_eq_square)

theorem near_points_monotone_witness:
  "(0::real) \<le> 2 \<and> (2::real) < 11 / 2
   \<and> near_points scenario_tree [Point 4 5] 2 = {Point 4 4}
   \<and> near_points scenario_tree [Point 4 5] (11 / 2) = {Point 8 8, Point 0 8, Point 4 4}
   \<and> near_points scenario_tree [Point 4 5] 2 \<subseteq> near_points scenario_tree [Point 4 5] (11 / 2)"
  using near_points_monotone [of 2 "11 / 2" scenario_tree "[Point 4 5]"]
  by (simp add: scenario_near scenario_near_small)

section \<open>Insertion and construction in exact arithmetic\<close>

text \<open>
  In exact arithmetic the four child squares tile the square of their parent, so a point
  that passes the root's test passes the test of every node on its way, no assertion
  fails, and the region invariant holds at every node. The lemmas of this section are
  about the exact functions \<open>add_point\<close> and \<open>make_tree\<close>; what the rounding of binary64
  makes of them is the matter of the next section.
\<close>

lemma child_region:
  assumes "is_in_box c w p"
  shows "px p < px c \<Longrightarrow> py p < py c \<Longrightarrow> is_in_box (Point (px c - w / 2) (py c - w / 2)) (w / 2) p"
    and "px p < px c \<Longrightarrow> \<not> py p < py c \<Longrightarrow> is_in_box (Point (px c - w / 2) (py c + w / 2)) (w / 2) p"
    and "\<not> px p < px c \<Longrightarrow> py p < py c \<Longrightarrow> is_in_box (Point (px c + w / 2) (py c - w / 2)) (w / 2) p"
    and "\<not> px p < px c \<Longrightarrow> \<not> py p < py c \<Longrightarrow> is_in_box (Point (px c + w / 2) (py c + w / 2)) (w / 2) p"
  using assms by (simp_all add: is_in_box_def)

lemma child_or_new_props:
  assumes "placed slot c h"
    and "case slot of None \<Rightarrow> True | Some t \<Rightarrow> well_placed t"
    and "case slot of None \<Rightarrow> True | Some t \<Rightarrow> region_invariant t"
  shows "center (child_or_new slot c h) = c" and "width (child_or_new slot c h) = h"
    and "well_placed (child_or_new slot c h)" and "region_invariant (child_or_new slot c h)"
    and "all_points (child_or_new slot c h) = (case slot of None \<Rightarrow> [] | Some t \<Rightarrow> all_points t)"
  using assms by (cases slot; simp add: child_or_new_def new_tree_def placed_def)+

lemma add_point_preserves:
  assumes "well_placed t" and "region_invariant t" and "is_in_box (center t) (width t) p"
  shows "\<exists>t'. add_point t p = Inr t' \<and> added t p t'"
  using assms
proof (induction t p rule: add_point.induct)
  case (1 c w pts cll cul clr cur p)
  let ?T = "QuadTree c w pts cll cul clr cur"
  have inbox: "is_in_box c w p" using "1.prems"(3) by simp
  show ?case
  proof (cases "w \<le> MAX_TREE_RESOLUTION")
    case True
    then show ?thesis
      using "1.prems" by (auto simp: added_def)
  next
    case deep: False
    show ?thesis
    proof (cases "px p < px c"; cases "py p < py c")
      assume x: "px p < px c" and y: "py p < py c"
      let ?c = "Point (px c - w / 2) (py c - w / 2)"
      let ?k = "child_or_new cll ?c (w / 2)"
      let ?T' = "\<lambda>t'. QuadTree c w pts (Some t') cul clr cur"
      have pl: "placed cll ?c (w / 2)"
        and wp: "case cll of None \<Rightarrow> True | Some t \<Rightarrow> well_placed t"
        and ri: "case cll of None \<Rightarrow> True | Some t \<Rightarrow> region_invariant t"
        using "1.prems"(1,2) by simp_all
      note k = child_or_new_props [OF pl wp ri]
      have "is_in_box (center ?k) (width ?k) p"
        by (simp only: k(1,2) child_region(1) [OF inbox x y])
      from "1.IH"(1) [OF _ deep x y k(3) k(4) this] inbox
      obtain t' where t': "add_point ?k p = Inr t'" "added ?k p t'"
        by auto
      have res: "add_point ?T p = Inr (?T' t')"
        using inbox deep x y t'(1) by simp
      have ap: "mset (all_points (?T' t')) = add_mset p (mset (all_points ?T))"
        using t'(2) k(5) by (cases cll) (simp_all add: added_def)
      have sp: "set (all_points (?T' t')) = insert p (set (all_points ?T))"
        by (metis ap set_mset_mset set_mset_add_mset_insert)
      have wp': "well_placed (?T' t')"
        using t'(2) "1.prems"(1) k(1,2) by (simp add: added_def placed_def)
      have "region_invariant (?T' t')"
        by (subst region_invariant.simps, subst sp)
          (use t'(2) "1.prems"(2) inbox in \<open>simp add: added_def\<close>)
      with res ap wp' show ?thesis
        by (simp add: added_def)
    next
      assume x: "px p < px c" and y: "\<not> py p < py c"
      let ?c = "Point (px c - w / 2) (py c + w / 2)"
      let ?k = "child_or_new cul ?c (w / 2)"
      let ?T' = "\<lambda>t'. QuadTree c w pts cll (Some t') clr cur"
      have pl: "placed cul ?c (w / 2)"
        and wp: "case cul of None \<Rightarrow> True | Some t \<Rightarrow> well_placed t"
        and ri: "case cul of None \<Rightarrow> True | Some t \<Rightarrow> region_invariant t"
        using "1.prems"(1,2) by simp_all
      note k = child_or_new_props [OF pl wp ri]
      have "is_in_box (center ?k) (width ?k) p"
        by (simp only: k(1,2) child_region(2) [OF inbox x y])
      from "1.IH"(2) [OF _ deep x y k(3) k(4) this] inbox
      obtain t' where t': "add_point ?k p = Inr t'" "added ?k p t'"
        by auto
      have res: "add_point ?T p = Inr (?T' t')"
        using inbox deep x y t'(1) by simp
      have ap: "mset (all_points (?T' t')) = add_mset p (mset (all_points ?T))"
        using t'(2) k(5) by (cases cul) (simp_all add: added_def)
      have sp: "set (all_points (?T' t')) = insert p (set (all_points ?T))"
        by (metis ap set_mset_mset set_mset_add_mset_insert)
      have wp': "well_placed (?T' t')"
        using t'(2) "1.prems"(1) k(1,2) by (simp add: added_def placed_def)
      have "region_invariant (?T' t')"
        by (subst region_invariant.simps, subst sp)
          (use t'(2) "1.prems"(2) inbox in \<open>simp add: added_def\<close>)
      with res ap wp' show ?thesis
        by (simp add: added_def)
    next
      assume x: "\<not> px p < px c" and y: "py p < py c"
      let ?c = "Point (px c + w / 2) (py c - w / 2)"
      let ?k = "child_or_new clr ?c (w / 2)"
      let ?T' = "\<lambda>t'. QuadTree c w pts cll cul (Some t') cur"
      have pl: "placed clr ?c (w / 2)"
        and wp: "case clr of None \<Rightarrow> True | Some t \<Rightarrow> well_placed t"
        and ri: "case clr of None \<Rightarrow> True | Some t \<Rightarrow> region_invariant t"
        using "1.prems"(1,2) by simp_all
      note k = child_or_new_props [OF pl wp ri]
      have "is_in_box (center ?k) (width ?k) p"
        by (simp only: k(1,2) child_region(3) [OF inbox x y])
      from "1.IH"(3) [OF _ deep x y k(3) k(4) this] inbox
      obtain t' where t': "add_point ?k p = Inr t'" "added ?k p t'"
        by auto
      have res: "add_point ?T p = Inr (?T' t')"
        using inbox deep x y t'(1) by simp
      have ap: "mset (all_points (?T' t')) = add_mset p (mset (all_points ?T))"
        using t'(2) k(5) by (cases clr) (simp_all add: added_def)
      have sp: "set (all_points (?T' t')) = insert p (set (all_points ?T))"
        by (metis ap set_mset_mset set_mset_add_mset_insert)
      have wp': "well_placed (?T' t')"
        using t'(2) "1.prems"(1) k(1,2) by (simp add: added_def placed_def)
      have "region_invariant (?T' t')"
        by (subst region_invariant.simps, subst sp)
          (use t'(2) "1.prems"(2) inbox in \<open>simp add: added_def\<close>)
      with res ap wp' show ?thesis
        by (simp add: added_def)
    next
      assume x: "\<not> px p < px c" and y: "\<not> py p < py c"
      let ?c = "Point (px c + w / 2) (py c + w / 2)"
      let ?k = "child_or_new cur ?c (w / 2)"
      let ?T' = "\<lambda>t'. QuadTree c w pts cll cul clr (Some t')"
      have pl: "placed cur ?c (w / 2)"
        and wp: "case cur of None \<Rightarrow> True | Some t \<Rightarrow> well_placed t"
        and ri: "case cur of None \<Rightarrow> True | Some t \<Rightarrow> region_invariant t"
        using "1.prems"(1,2) by simp_all
      note k = child_or_new_props [OF pl wp ri]
      have "is_in_box (center ?k) (width ?k) p"
        by (simp only: k(1,2) child_region(4) [OF inbox x y])
      from "1.IH"(4) [OF _ deep x y k(3) k(4) this] inbox
      obtain t' where t': "add_point ?k p = Inr t'" "added ?k p t'"
        by auto
      have res: "add_point ?T p = Inr (?T' t')"
        using inbox deep x y t'(1) by simp
      have ap: "mset (all_points (?T' t')) = add_mset p (mset (all_points ?T))"
        using t'(2) k(5) by (cases cur) (simp_all add: added_def)
      have sp: "set (all_points (?T' t')) = insert p (set (all_points ?T))"
        by (metis ap set_mset_mset set_mset_add_mset_insert)
      have wp': "well_placed (?T' t')"
        using t'(2) "1.prems"(1) k(1,2) by (simp add: added_def placed_def)
      have "region_invariant (?T' t')"
        by (subst region_invariant.simps, subst sp)
          (use t'(2) "1.prems"(2) inbox in \<open>simp add: added_def\<close>)
      with res ap wp' show ?thesis
        by (simp add: added_def)
    qed
  qed
qed


lemma add_points_preserve:
  assumes "well_placed t" and "region_invariant t"
    and "\<forall>p \<in> set ps. is_in_box (center t) (width t) p"
  shows "\<exists>t'. add_points t ps = Inr t' \<and> well_placed t' \<and> region_invariant t'
    \<and> center t' = center t \<and> width t' = width t
    \<and> mset (all_points t') = mset (all_points t) + mset ps"
  using assms
proof (induction ps arbitrary: t)
  case Nil
  then show ?case by simp
next
  case (Cons p ps)
  from add_point_preserves [OF Cons.prems(1,2), of p] Cons.prems(3)
  obtain t1 where t1: "add_point t p = Inr t1" "added t p t1"
    by auto
  then have same: "center t1 = center t" "width t1 = width t"
    and inv: "well_placed t1" "region_invariant t1"
    and pts: "mset (all_points t1) = add_mset p (mset (all_points t))"
    by (simp_all add: added_def)
  from Cons.prems(3) have "\<forall>q \<in> set ps. is_in_box (center t1) (width t1) q"
    by (simp add: same)
  from Cons.IH [OF inv this] obtain t' where
    "add_points t1 ps = Inr t'" "well_placed t'" "region_invariant t'"
    "center t' = center t1" "width t' = width t1"
    "mset (all_points t') = mset (all_points t1) + mset ps"
    by blast
  then show ?case
    using t1(1) same pts by simp
qed

lemma new_tree_invariant: "well_placed (new_tree c w)" "region_invariant (new_tree c w)"
  "center (new_tree c w) = c" "width (new_tree c w) = w" "all_points (new_tree c w) = []"
  by (simp_all add: new_tree_def placed_def)

lemma exact_add_point_keeps_region_invariant:
  assumes "\<forall>p \<in> set ps. is_in_box c w p" and "is_in_box c w q"
  shows "\<exists>t t'. add_points (new_tree c w) ps = Inr t \<and> region_invariant t
    \<and> add_point t q = Inr t' \<and> region_invariant t'"
proof -
  from add_points_preserve [OF new_tree_invariant(1,2), of ps c w] assms(1)
  obtain t where t: "add_points (new_tree c w) ps = Inr t" "well_placed t" "region_invariant t"
    "center t = c" "width t = w"
    by (auto simp: new_tree_invariant)
  from add_point_preserves [OF t(2,3), of q] assms(2) t(4,5)
  obtain t' where "add_point t q = Inr t'" "added t q t'"
    by auto
  with t show ?thesis
    by (auto simp: added_def)
qed

lemma min_of_eq: "vs \<noteq> [] \<Longrightarrow> min_of vs = Inr (Min (set vs))"
  by (cases vs) (simp_all add: Min.set_eq_fold [symmetric])

lemma max_of_eq: "vs \<noteq> [] \<Longrightarrow> max_of vs = Inr (Max (set vs))"
  by (cases vs) (simp_all add: Max.set_eq_fold [symmetric])

lemma exact_make_tree_returns:
  assumes "pts \<noteq> []"
  shows "\<exists>t. make_tree pts = Inr t
    \<and> center t = Point ((Max (px ` set pts) + Min (px ` set pts)) / 2)
        ((Max (py ` set pts) + Min (py ` set pts)) / 2)
    \<and> width t = max (Max (px ` set pts) - Min (px ` set pts))
        (Max (py ` set pts) - Min (py ` set pts)) / 2 + 1 / 1000
    \<and> mset (all_points t) = mset pts \<and> region_invariant t"
proof -
  let ?xmin = "Min (px ` set pts)" and ?xmax = "Max (px ` set pts)"
  let ?ymin = "Min (py ` set pts)" and ?ymax = "Max (py ` set pts)"
  let ?c = "Point ((?xmax + ?xmin) / 2) ((?ymax + ?ymin) / 2)"
  let ?w = "max (?xmax - ?xmin) (?ymax - ?ymin) / 2 + 1 / 1000"
  have mk: "make_tree pts = add_points (new_tree ?c ?w) pts"
    using assms by (simp add: make_tree_def min_of_eq max_of_eq)
  have "is_in_box ?c ?w p" if "p \<in> set pts" for p
  proof -
    have "?xmin \<le> px p" "px p \<le> ?xmax" "?ymin \<le> py p" "py p \<le> ?ymax"
      using that by simp_all
    then show ?thesis
      by (simp add: is_in_box_def max_def field_simps)
  qed
  then have "\<forall>p \<in> set pts. is_in_box (center (new_tree ?c ?w)) (width (new_tree ?c ?w)) p"
    by (simp add: new_tree_invariant)
  from add_points_preserve [OF new_tree_invariant(1,2) this]
  show ?thesis
    unfolding mk by (auto simp: new_tree_invariant)
qed

section \<open>Insertion and construction in binary64\<close>

text \<open>The rounding of a number whose binade is known.\<close>

lemma ulp_down_eq:
  assumes "k \<le> n" and "2 ^ 52 * (u / 2 ^ k) \<le> \<bar>x\<bar>" and "\<bar>x\<bar> < 2 ^ 53 * (u / 2 ^ k)"
    and "0 < u"
  shows "ulp_down n x u = u / 2 ^ k"
  using assms
proof (induction k arbitrary: n u)
  case 0
  then show ?case
    by (subst ulp_down.simps) simp
next
  case (Suc k)
  have "\<bar>x\<bar> < 2 ^ 52 * u"
  proof -
    have "2 ^ 53 * (u / 2 ^ Suc k) = 2 ^ 52 * (u / 2 ^ k)"
      by simp
    also have "\<dots> \<le> 2 ^ 52 * u"
      using Suc.prems(4) by (simp add: divide_le_eq_1_pos field_simps)
    finally show ?thesis
      using Suc.prems(3) by linarith
  qed
  moreover have "ulp_down (n - 1) x (u / 2) = u / 2 / 2 ^ k"
    using Suc.prems by (intro Suc.IH) simp_all
  ultimately show ?case
    using Suc.prems(1) by (subst ulp_down.simps) simp
qed

lemma fl_eq:
  assumes "k \<le> 1074" and "2 ^ 52 / 2 ^ k \<le> \<bar>x\<bar>" and "\<bar>x\<bar> < 2 ^ 53 / 2 ^ k"
  shows "fl x = of_int (round_half_even (x * 2 ^ k)) / 2 ^ k"
proof -
  have "\<bar>x\<bar> < 2 ^ 53"
  proof -
    have "(2::real) ^ 53 / 2 ^ k \<le> 2 ^ 53"
      by (simp add: divide_le_eq_1_pos field_simps)
    with assms(3) show ?thesis by linarith
  qed
  moreover have "ulp_down 1074 x 1 = 1 / 2 ^ k"
    using assms by (intro ulp_down_eq) simp_all
  ultimately show ?thesis
    by (simp add: fl_def ulp_def)
qed

lemma fl_zero: "fl 0 = 0"
  by (simp add: fl_def round_half_even_def)

lemmas fl_binades =
  fl_eq [of 48] fl_eq [of 49] fl_eq [of 50] fl_eq [of 51] fl_eq [of 52] fl_eq [of 53]
  fl_eq [of 54] fl_eq [of 55] fl_eq [of 56] fl_eq [of 57] fl_eq [of 58] fl_eq [of 59]
  fl_eq [of 60] fl_eq [of 61] fl_eq [of 62] fl_eq [of 63]

lemmas binary64_eval = fl_binades fl_zero round_half_even_def Let_def is_in_box64_def
  MAX_TREE_RESOLUTION_def child_or_new_def new_tree_def

lemma fl_literals:
  "fl (1 / 1000) = 1152921504606847 / 1152921504606846976"
  "fl (1 / 10) = tenth"
  "fl (4 + 1 / 1000) = 4504725527277339 / 1125899906842624"
  "fl (7 + 1 / 1000) = 7882425247805211 / 1125899906842624"
  by (simp_all add: tenth_def binary64_eval)


lemma rounded_tree_breaks_region_invariant: "\<not> region_invariant rounded_tree"
  by (simp add: rounded_tree_def rounded_child_def is_in_box_def)


text \<open>
  C5. The claim: for every non-empty collection of points \<^verbatim>\<open>make_tree\<close> builds a root
  with the center \<open>((xmax + xmin) / 2, (ymax + ymin) / 2)\<close> and the half-width
  \<open>max (xmax - xmin) (ymax - ymin) / 2 + 0.001\<close>, inserts every point, and no assertion
  of \<^verbatim>\<open>add_point\<close> fails on the way.

  On the points \<open>(0, 0)\<close>, \<open>(14, 0)\<close>, \<open>(7, 0)\<close> the root is centered at \<open>(7, 0)\<close> with the
  half-width \<^verbatim>\<open>7.001\<close>, and the third point passes the root's test. Its way leads to the
  upper right child and on to that child's lower left child, whose center is rounded to
  \<^verbatim>\<open>8.750250000000001\<close>; the lower bound \<^verbatim>\<open>8.750250000000001 - 1.75025\<close> is
  \<^verbatim>\<open>7.000000000000001\<close>, above \<open>7\<close>, and the assertion fails.
\<close>

theorem make_tree_assertion_fails_by_rounding:
  "is_in_box64 (Point 7 0) (fl (7 + 1 / 1000)) (Point 7 0)
   \<and> fl (fl (fl (7 + fl (7 + 1 / 1000) / 2) - fl (7 + 1 / 1000) / 4) - fl (7 + 1 / 1000) / 4)
       = 7 + 1 / 2 ^ 50
   \<and> make_tree64 [Point 0 0, Point 14 0, Point 7 0] = Inl AssertionError"
proof -
  have "make_tree64 [Point 0 0, Point 14 0, Point 7 0] = Inl AssertionError"
    by (simp add: make_tree64_def binary64_eval)
  moreover have "is_in_box64 (Point 7 0) (fl (7 + 1 / 1000)) (Point 7 0)"
    by (simp add: fl_literals binary64_eval)
  moreover have
    "fl (fl (fl (7 + fl (7 + 1 / 1000) / 2) - fl (7 + 1 / 1000) / 4) - fl (7 + 1 / 1000) / 4)
       = 7 + 1 / 2 ^ 50"
    by (simp add: fl_literals binary64_eval)
  ultimately show ?thesis
    by blast
qed

section \<open>What the queries do return\<close>

text \<open>
  In exact arithmetic: the two queries are sound on every tree, and on a tree built by
  the exact \<open>add_point\<close> they miss at most points on the upper or the right edge of the
  query rectangle: a stored point of the rectangle with \<open>x < upper_right.x\<close> and
  \<open>y < upper_right.y\<close> is found. For the radius query these are the stored points with
  \<open>x = centroid.x + radius\<close> or \<open>y = centroid.y + radius\<close>, the east and the north pole
  of the circle. The box query itself only compares, so its soundness and its routing
  argument do not depend on rounding; the bounds of the enclosing square and the squared
  distances of the radius query do.
\<close>

lemma in_all_points_iff:
  "q \<in> set (all_points (QuadTree c w pts cll cul clr cur)) \<longleftrightarrow>
     q \<in> set pts
     \<or> (\<exists>t. cll = Some t \<and> q \<in> set (all_points t))
     \<or> (\<exists>t. cul = Some t \<and> q \<in> set (all_points t))
     \<or> (\<exists>t. clr = Some t \<and> q \<in> set (all_points t))
     \<or> (\<exists>t. cur = Some t \<and> q \<in> set (all_points t))"
  by (cases cll; cases cul; cases clr; cases cur) auto

lemma points_in_box_sound:
  "q \<in> set (points_in_box t l u) \<Longrightarrow> q \<in> set (all_points t) \<and> in_rect l u q"
proof (induction t l u rule: points_in_box.induct)
  case (1 c w pts cll cul clr cur l u)
  from "1.prems" consider
      "q \<in> set pts" "in_rect l u q"
    | t where "px l < px c" "py l < py c" "cll = Some t" "q \<in> set (points_in_box t l u)"
    | t where "px l < px c" "py u > py c" "cul = Some t" "q \<in> set (points_in_box t l u)"
    | t where "px u > px c" "py l < py c" "clr = Some t" "q \<in> set (points_in_box t l u)"
    | t where "px u > px c" "py u > py c" "cur = Some t" "q \<in> set (points_in_box t l u)"
    unfolding in_points_in_box_iff by blast
  then show ?case
  proof cases
    case 1
    then show ?thesis by (simp add: in_all_points_iff)
  next
    case 2
    with "1.IH"(1) [OF 2(1-4)] show ?thesis by (simp add: in_all_points_iff)
  next
    case 3
    with "1.IH"(2) [OF 3(1-4)] show ?thesis by (simp add: in_all_points_iff)
  next
    case 4
    with "1.IH"(3) [OF 4(1-4)] show ?thesis by (simp add: in_all_points_iff)
  next
    case 5
    with "1.IH"(4) [OF 5(1-4)] show ?thesis by (simp add: in_all_points_iff)
  qed
qed

lemma points_in_box_complete_below_upper_edges:
  assumes "routed t" and "q \<in> set (all_points t)" and "in_rect l u q"
    and "px q < px u" and "py q < py u"
  shows "q \<in> set (points_in_box t l u)"
  using assms(1,2)
proof (induction t)
  case (QuadTree c w pts cll cul clr cur)
  have lq: "px l \<le> px q" "py l \<le> py q"
    using assms(3) by (simp_all add: in_rect_def)
  from QuadTree.prems(2) consider
      "q \<in> set pts"
    | t where "cll = Some t" "q \<in> set (all_points t)"
    | t where "cul = Some t" "q \<in> set (all_points t)"
    | t where "clr = Some t" "q \<in> set (all_points t)"
    | t where "cur = Some t" "q \<in> set (all_points t)"
    unfolding in_all_points_iff by blast
  then show ?case
  proof cases
    case 1
    then show ?thesis using assms(3) by (simp add: in_points_in_box_iff)
  next
    case 2
    then have "px q < px c" "py q < py c" "routed t"
      using QuadTree.prems(1) by auto
    moreover have "q \<in> set (points_in_box t l u)"
      using QuadTree.IH(1) 2 \<open>routed t\<close> by auto
    ultimately show ?thesis
      using 2 lq assms(4,5) by (simp add: in_points_in_box_iff)
  next
    case 3
    then have "px q < px c" "\<not> py q < py c" "routed t"
      using QuadTree.prems(1) by auto
    moreover have "q \<in> set (points_in_box t l u)"
      using QuadTree.IH(2) 3 \<open>routed t\<close> by auto
    ultimately show ?thesis
      using 3 lq assms(4,5) by (simp add: in_points_in_box_iff)
  next
    case 4
    then have "\<not> px q < px c" "py q < py c" "routed t"
      using QuadTree.prems(1) by auto
    moreover have "q \<in> set (points_in_box t l u)"
      using QuadTree.IH(3) 4 \<open>routed t\<close> by auto
    ultimately show ?thesis
      using 4 lq assms(4,5) by (simp add: in_points_in_box_iff)
  next
    case 5
    then have "\<not> px q < px c" "\<not> py q < py c" "routed t"
      using QuadTree.prems(1) by auto
    moreover have "q \<in> set (points_in_box t l u)"
      using QuadTree.IH(4) 5 \<open>routed t\<close> by auto
    ultimately show ?thesis
      using 5 lq assms(4,5) by (simp add: in_points_in_box_iff)
  qed
qed


lemma add_point_routed:
  assumes "add_point t p = Inr t'" and "routed t"
  shows "set (all_points t') = insert p (set (all_points t)) \<and> routed t'"
  using assms
proof (induction t p arbitrary: t' rule: add_point.induct)
  case (1 c w pts cll cul clr cur p)
  have inbox: "is_in_box c w p"
    using "1.prems"(1) by (auto split: if_splits)
  show ?case
  proof (cases "w \<le> MAX_TREE_RESOLUTION")
    case True
    then show ?thesis
      using "1.prems" inbox by auto
  next
    case deep: False
    show ?thesis
    proof (cases "px p < px c"; cases "py p < py c")
      assume x: "px p < px c" and y: "py p < py c"
      let ?k = "child_or_new cll (Point (px c - w / 2) (py c - w / 2)) (w / 2)"
      from "1.prems"(1) inbox deep x y obtain k' where
        k': "add_point ?k p = Inr k'" and t': "t' = QuadTree c w pts (Some k') cul clr cur"
        by (auto split: sum.splits)
      have kp: "set (all_points ?k) = (case cll of None \<Rightarrow> {} | Some t \<Rightarrow> set (all_points t))"
        and kr: "routed ?k"
        using "1.prems"(2) by (cases cll; simp add: child_or_new_def new_tree_def)+
      from "1.IH"(1) [OF _ deep x y k' kr] inbox
      have "set (all_points k') = insert p (set (all_points ?k))" and "routed k'"
        by simp_all
      then show ?thesis
        using kp "1.prems"(2) x y unfolding t'
        by (cases cll) (auto simp: in_all_points_iff)
    next
      assume x: "px p < px c" and y: "\<not> py p < py c"
      let ?k = "child_or_new cul (Point (px c - w / 2) (py c + w / 2)) (w / 2)"
      from "1.prems"(1) inbox deep x y obtain k' where
        k': "add_point ?k p = Inr k'" and t': "t' = QuadTree c w pts cll (Some k') clr cur"
        by (auto split: sum.splits)
      have kp: "set (all_points ?k) = (case cul of None \<Rightarrow> {} | Some t \<Rightarrow> set (all_points t))"
        and kr: "routed ?k"
        using "1.prems"(2) by (cases cul; simp add: child_or_new_def new_tree_def)+
      from "1.IH"(2) [OF _ deep x y k' kr] inbox
      have "set (all_points k') = insert p (set (all_points ?k))" and "routed k'"
        by simp_all
      then show ?thesis
        using kp "1.prems"(2) x y unfolding t'
        by (cases cul) (auto simp: in_all_points_iff)
    next
      assume x: "\<not> px p < px c" and y: "py p < py c"
      let ?k = "child_or_new clr (Point (px c + w / 2) (py c - w / 2)) (w / 2)"
      from "1.prems"(1) inbox deep x y obtain k' where
        k': "add_point ?k p = Inr k'" and t': "t' = QuadTree c w pts cll cul (Some k') cur"
        by (auto split: sum.splits)
      have kp: "set (all_points ?k) = (case clr of None \<Rightarrow> {} | Some t \<Rightarrow> set (all_points t))"
        and kr: "routed ?k"
        using "1.prems"(2) by (cases clr; simp add: child_or_new_def new_tree_def)+
      from "1.IH"(3) [OF _ deep x y k' kr] inbox
      have "set (all_points k') = insert p (set (all_points ?k))" and "routed k'"
        by simp_all
      then show ?thesis
        using kp "1.prems"(2) x y unfolding t'
        by (cases clr) (auto simp: in_all_points_iff)
    next
      assume x: "\<not> px p < px c" and y: "\<not> py p < py c"
      let ?k = "child_or_new cur (Point (px c + w / 2) (py c + w / 2)) (w / 2)"
      from "1.prems"(1) inbox deep x y obtain k' where
        k': "add_point ?k p = Inr k'" and t': "t' = QuadTree c w pts cll cul clr (Some k')"
        by (auto split: sum.splits)
      have kp: "set (all_points ?k) = (case cur of None \<Rightarrow> {} | Some t \<Rightarrow> set (all_points t))"
        and kr: "routed ?k"
        using "1.prems"(2) by (cases cur; simp add: child_or_new_def new_tree_def)+
      from "1.IH"(4) [OF _ deep x y k' kr] inbox
      have "set (all_points k') = insert p (set (all_points ?k))" and "routed k'"
        by simp_all
      then show ?thesis
        using kp "1.prems"(2) x y unfolding t'
        by (cases cur) (auto simp: in_all_points_iff)
    qed
  qed
qed

lemma add_points_routed:
  assumes "add_points t ps = Inr t'" and "routed t"
  shows "set (all_points t') = set (all_points t) \<union> set ps \<and> routed t'"
  using assms
proof (induction ps arbitrary: t)
  case Nil
  then show ?case by simp
next
  case (Cons p ps)
  from Cons.prems(1) obtain t1 where t1: "add_point t p = Inr t1" "add_points t1 ps = Inr t'"
    by (auto split: sum.splits)
  from add_point_routed [OF t1(1) Cons.prems(2)] Cons.IH [OF t1(2)]
  show ?case by auto
qed


lemma add_point_root:
  assumes "add_point t p = Inr t'"
  shows "is_in_box (center t) (width t) p \<and> center t' = center t \<and> width t' = width t"
proof (cases t)
  case (QuadTree c w pts cll cul clr cur)
  with assms show ?thesis
    by (auto split: if_splits sum.splits)
qed

lemma add_points_root:
  assumes "add_points t ps = Inr t'"
  shows "(\<forall>p \<in> set ps. is_in_box (center t) (width t) p)
    \<and> center t' = center t \<and> width t' = width t"
  using assms
proof (induction ps arbitrary: t)
  case Nil
  then show ?case by simp
next
  case (Cons p ps)
  from Cons.prems obtain t1 where t1: "add_point t p = Inr t1" "add_points t1 ps = Inr t'"
    by (auto split: sum.splits)
  from add_point_root [OF t1(1)] Cons.IH [OF t1(2)]
  show ?case by auto
qed

lemma built_tree_invariants:
  assumes "add_points (new_tree c w) ps = Inr t"
  shows "routed t" and "region_invariant t" and "set (all_points t) = set ps"
    and "center t = c" and "width t = w"
proof -
  have r: "routed (new_tree c w)"
    by (simp add: new_tree_def)
  from add_points_routed [OF assms r]
  show "routed t" and "set (all_points t) = set ps"
    by (simp_all add: new_tree_invariant)
  from add_points_root [OF assms]
  have box: "\<forall>p \<in> set ps. is_in_box (center (new_tree c w)) (width (new_tree c w)) p"
    and "center t = center (new_tree c w)" "width t = width (new_tree c w)"
    by simp_all
  then show "center t = c" and "width t = w"
    by (simp_all add: new_tree_invariant)
  from add_points_preserve [OF new_tree_invariant(1,2) box] assms
  show "region_invariant t" by auto
qed

lemma region_invariant_root:
  "region_invariant t \<Longrightarrow> q \<in> set (all_points t) \<Longrightarrow> is_in_box (center t) (width t) q"
  by (cases t) simp

lemma points_in_radius_sound:
  assumes "q \<in> set (points_in_radius t c r)"
  shows "q \<in> set (all_points t) \<and> (px q - px c) ^ 2 + (py q - py c) ^ 2 \<le> r ^ 2"
proof -
  from assms have "q \<in> set (points_in_box t (Point (px c - r) (py c - r))
        (Point (px c + r) (py c + r)))"
    and "(px q - px c) ^ 2 + (py q - py c) ^ 2 \<le> r ^ 2"
    by (auto simp: points_in_radius_def Let_def split: if_splits)
  with points_in_box_sound show ?thesis by blast
qed

lemma within_radius_coordinates:
  fixes r :: real
  assumes "0 \<le> r" and "dx ^ 2 + dy ^ 2 \<le> r ^ 2"
  shows "\<bar>dx\<bar> \<le> r" and "\<bar>dy\<bar> \<le> r"
proof -
  have "dx ^ 2 \<le> r ^ 2" "dy ^ 2 \<le> r ^ 2"
    using assms(2) zero_le_power2 [of dx] zero_le_power2 [of dy] by linarith+
  then show "\<bar>dx\<bar> \<le> r" and "\<bar>dy\<bar> \<le> r"
    using assms(1) by (simp_all add: abs_le_square_iff [symmetric])
qed

lemma points_in_radius_complete_off_poles:
  assumes "routed t" and "region_invariant t" and "q \<in> set (all_points t)"
    and "0 \<le> r" and "(px q - px c) ^ 2 + (py q - py c) ^ 2 \<le> r ^ 2"
    and "px q < px c + r" and "py q < py c + r"
  shows "q \<in> set (points_in_radius t c r)"
proof -
  from within_radius_coordinates [OF assms(4,5)]
  have d: "\<bar>px q - px c\<bar> \<le> r" "\<bar>py q - py c\<bar> \<le> r" .
  from region_invariant_root [OF assms(2,3)]
  have b: "\<bar>px q - px (center t)\<bar> \<le> width t" "\<bar>py q - py (center t)\<bar> \<le> width t"
    by (simp_all add: is_in_box_def abs_le_iff)
  have "\<not> \<bar>px c - px (center t)\<bar> > r + width t" "\<not> \<bar>py c - py (center t)\<bar> > r + width t"
    using d b by linarith+
  moreover have "in_rect (Point (px c - r) (py c - r)) (Point (px c + r) (py c + r)) q"
    using d by (simp add: in_rect_def abs_le_iff)
  then have "q \<in> set (points_in_box t (Point (px c - r) (py c - r)) (Point (px c + r) (py c + r)))"
    using assms(1,3,6,7) by (intro points_in_box_complete_below_upper_edges) simp_all
  ultimately show ?thesis
    using assms(5) by (simp add: points_in_radius_def Let_def)
qed


lemma near_points_of_built_tree:
  assumes "add_points (new_tree c0 w0) ps = Inr t" and "0 \<le> r"
  shows "near_points t cs r \<subseteq>
      {q \<in> set ps. \<exists>c \<in> set cs. (px q - px c) ^ 2 + (py q - py c) ^ 2 \<le> r ^ 2}"
    and "{q \<in> set ps. \<exists>c \<in> set cs. (px q - px c) ^ 2 + (py q - py c) ^ 2 \<le> r ^ 2
            \<and> px q < px c + r \<and> py q < py c + r} \<subseteq> near_points t cs r"
proof -
  note inv = built_tree_invariants [OF assms(1)]
  show "near_points t cs r \<subseteq>
      {q \<in> set ps. \<exists>c \<in> set cs. (px q - px c) ^ 2 + (py q - py c) ^ 2 \<le> r ^ 2}"
    unfolding near_points_eq using points_in_radius_sound [of _ t _ r] inv(3) by blast
  show "{q \<in> set ps. \<exists>c \<in> set cs. (px q - px c) ^ 2 + (py q - py c) ^ 2 \<le> r ^ 2
            \<and> px q < px c + r \<and> py q < py c + r} \<subseteq> near_points t cs r"
    unfolding near_points_eq
    using points_in_radius_complete_off_poles [OF inv(1,2) _ assms(2)] inv(3) by blast
qed

section \<open>The radius search\<close>

text \<open>
  C10. When \<open>x2 > x1 > 0\<close>, \<open>y2 \<ge> y1 \<ge> 0\<close> and \<open>x1 * y2 = x2 * y1\<close>, the four assertions
  of \<^verbatim>\<open>_quadratic_interpolate\<close> pass, the coefficient \<open>a\<close> is zero, the square root is
  taken of \<open>b\<^sup>2\<close>, and the division by \<open>2.0 * a\<close> raises \<^verbatim>\<open>ZeroDivisionError\<close>, whatever
  the target is.
\<close>

theorem quadratic_interpolate_zero_division:
  assumes "x2 > x1" and "x1 > 0" and "y2 \<ge> y1" and "y1 \<ge> 0" and "x1 * y2 = x2 * y1"
  shows "quadratic_interpolate x1 y1 x2 y2 target_y = Inl ZeroDivisionError"
proof -
  have d: "x1 * x2 * (x2 - x1) \<noteq> 0"
    using assms(1,2) by simp
  show ?thesis
    using assms d by (simp add: quadratic_interpolate_def Let_def)
qed

theorem quadratic_interpolate_zero_division_witness:
  "(3::real) > 1 \<and> (1::real) > 0 \<and> (6::real) \<ge> 2 \<and> (2::real) \<ge> 0 \<and> (1::real) * 6 = 3 * 2
   \<and> quadratic_interpolate 1 2 3 6 4 = Inl ZeroDivisionError"
  using quadratic_interpolate_zero_division [of 1 3 2 6 4] by simp

text \<open>
  C6. If the target is positive and \<^verbatim>\<open>near_points\<close> at the caller's radius returns
  exactly \<open>target_count\<close> points, \<^verbatim>\<open>newton_search\<close> returns that radius and that count,
  and writes nothing to \<^verbatim>\<open>sys.stderr\<close>. The scenario of \<^verbatim>\<open>test_newton_search\<close>
  (centroid \<open>(4, 5)\<close>, radius \<open>5.5\<close>, target \<open>3\<close>) is the witness below.
\<close>

theorem newton_search_exact_at_initial_radius:
  assumes "0 < target_count"
    and "int (card (near_points tree centroids radius)) = target_count"
  shows "newton_search tree centroids radius target_count
    = Some ([], Inr (radius, Count target_count))"
  using assms by (simp add: newton_search_def)

theorem newton_search_exact_at_initial_radius_witness:
  "make_tree scenario_points = Inr scenario_tree
   \<and> (0::int) < 3
   \<and> int (card (near_points scenario_tree [Point 4 5] (11 / 2))) = 3
   \<and> newton_search scenario_tree [Point 4 5] (11 / 2) 3 = Some ([], Inr (11 / 2, Count 3))"
proof -
  have n: "int (card (near_points scenario_tree [Point 4 5] (11 / 2))) = 3"
    by (simp add: scenario_near)
  show ?thesis
    using newton_search_exact_at_initial_radius [of 3 scenario_tree "[Point 4 5]" "11 / 2"] n
    by (simp add: make_scenario_tree)
qed

subsection \<open>The interpolation step away from division by zero\<close>

text \<open>
  In exact arithmetic the parabola \<open>y = a * x\<^sup>2 + b * x\<close> of \<^verbatim>\<open>_quadratic_interpolate\<close>
  passes through both bracket points. With \<open>0 \<le> y1 < target < y2\<close> and \<open>0 \<le> x1 < x2\<close>,
  the value the exact function returns lies strictly inside the bracket whenever it
  returns one, and it returns one unless \<open>x1 > 0\<close> and \<open>x1 * y2 = x2 * y1\<close>. These lemmas
  say nothing about the rounded computation, where cancellation in \<open>a\<close> and \<open>b\<close> can move
  the result out of the bracket.
\<close>

lemma interpolate_fit:
  fixes x1 x2 y1 y2 :: real
  assumes "0 < x1" and "x1 < x2"
  defines "d \<equiv> x1 * x2 * (x2 - x1)"
  defines "a \<equiv> (x1 * y2 - x2 * y1) / d" and "b \<equiv> (x2 ^ 2 * y1 - x1 ^ 2 * y2) / d"
  shows "a * x1 ^ 2 + b * x1 = y1" and "a * x2 ^ 2 + b * x2 = y2"
proof -
  have d: "d \<noteq> 0"
    using assms(1,2) by (simp add: d_def)
  have "(a * x1 ^ 2 + b * x1) * d = y1 * d"
    unfolding a_def b_def using d by (simp add: field_simps) (simp add: d_def power2_eq_square algebra_simps)
  then show "a * x1 ^ 2 + b * x1 = y1"
    using d by simp
  have "(a * x2 ^ 2 + b * x2) * d = y2 * d"
    unfolding a_def b_def using d by (simp add: field_simps) (simp add: d_def power2_eq_square algebra_simps)
  then show "a * x2 ^ 2 + b * x2 = y2"
    using d by simp
qed

lemma root_inside:
  fixes a b x1 x2 y1 y2 t :: real
  assumes a: "a \<noteq> 0" and x: "0 < x1" "x1 < x2"
    and f1: "a * x1 ^ 2 + b * x1 = y1" and f2: "a * x2 ^ 2 + b * x2 = y2"
    and y: "0 \<le> y1" "y1 < t" "t < y2"
  shows "0 \<le> 4 * a * t + b ^ 2"
    and "x1 < (sqrt (4 * a * t + b ^ 2) - b) / (2 * a)"
    and "(sqrt (4 * a * t + b ^ 2) - b) / (2 * a) < x2"
proof -
  define D where "D = 4 * a * t + b ^ 2"
  define s where "s = sqrt D"
  have e1: "(2 * a * x1 + b) ^ 2 - D = 4 * a * (y1 - t)"
    unfolding D_def f1 [symmetric] by (simp add: power2_eq_square algebra_simps)
  have e2: "(2 * a * x2 + b) ^ 2 - D = 4 * a * (y2 - t)"
    unfolding D_def f2 [symmetric] by (simp add: power2_eq_square algebra_simps)
  have goal: "0 \<le> D \<and> x1 < (s - b) / (2 * a) \<and> (s - b) / (2 * a) < x2"
  proof (cases "0 < a")
    case True
    have "4 * a * (y1 - t) < 0"
      using True y by (simp add: mult_less_0_iff)
    with e1 have lo: "(2 * a * x1 + b) ^ 2 < D" by linarith
    have "0 < 4 * a * (y2 - t)"
      using True y by simp
    with e2 have hi: "D < (2 * a * x2 + b) ^ 2" by linarith
    have D0: "0 \<le> D"
      using lo zero_le_power2 [of "2 * a * x1 + b"] by linarith
    have "0 < x2 * (a * x2 + b)"
      using f2 y by (simp add: power2_eq_square algebra_simps)
    then have "0 < a * x2 + b"
      using x by (simp add: zero_less_mult_iff)
    moreover have "0 < a * x2"
      using True x by simp
    ultimately have pos: "0 \<le> 2 * a * x2 + b" by linarith
    have "2 * a * x1 + b < s"
      unfolding s_def using lo by (rule real_less_rsqrt)
    moreover have "s < 2 * a * x2 + b"
      unfolding s_def using pos hi by (intro real_less_lsqrt)
    ultimately show ?thesis
      using True D0 by (simp add: pos_less_divide_eq pos_divide_less_eq algebra_simps)
  next
    case False
    with a have neg: "a < 0" by simp
    have "0 < 4 * a * (y1 - t)"
      using neg y by (simp add: zero_less_mult_iff)
    with e1 have lo: "D < (2 * a * x1 + b) ^ 2" by linarith
    have "4 * a * (y2 - t) < 0"
      using neg y by (simp add: mult_less_0_iff)
    with e2 have hi: "(2 * a * x2 + b) ^ 2 < D" by linarith
    have D0: "0 \<le> D"
      using hi zero_le_power2 [of "2 * a * x2 + b"] by linarith
    have ord: "2 * a * x2 + b < 2 * a * x1 + b"
      using neg x by simp
    have pos: "0 \<le> 2 * a * x1 + b"
    proof (rule ccontr)
      assume "\<not> 0 \<le> 2 * a * x1 + b"
      with ord have "\<bar>2 * a * x1 + b\<bar> \<le> \<bar>2 * a * x2 + b\<bar>" by linarith
      then have "(2 * a * x1 + b) ^ 2 \<le> (2 * a * x2 + b) ^ 2"
        by (simp add: abs_le_square_iff)
      with lo hi show False by linarith
    qed
    have "s < 2 * a * x1 + b"
      unfolding s_def using pos lo by (intro real_less_lsqrt)
    moreover have "2 * a * x2 + b < s"
      unfolding s_def using hi by (rule real_less_rsqrt)
    ultimately show ?thesis
      using neg D0 by (simp add: neg_less_divide_eq neg_divide_less_eq algebra_simps)
  qed
  then show "0 \<le> 4 * a * t + b ^ 2"
    and "x1 < (sqrt (4 * a * t + b ^ 2) - b) / (2 * a)"
    and "(sqrt (4 * a * t + b ^ 2) - b) / (2 * a) < x2"
    by (simp_all add: D_def s_def)
qed

lemma quadratic_interpolate_interior:
  assumes "0 \<le> x1" and "x1 < x2" and "0 \<le> y1" and "y1 < t" and "t < y2"
    and "x1 = 0 \<or> x1 * y2 \<noteq> x2 * y1"
  shows "\<exists>m. quadratic_interpolate x1 y1 x2 y2 t = Inr m \<and> x1 < m \<and> m < x2"
proof (cases "x1 = 0")
  case True
  have y2: "0 < y2" and t: "0 < t"
    using assms(3-5) by linarith+
  then have q: "0 < t / y2" "t / y2 < 1"
    using assms(5) by simp_all
  then have "0 < sqrt (t / y2)" "sqrt (t / y2) < 1"
    by simp_all
  then have "0 < x2 * sqrt (t / y2)" "x2 * sqrt (t / y2) < x2"
    using assms(2) True by simp_all
  moreover have "\<not> t / y2 < 0" "y2 \<noteq> 0" "\<not> y2 < y1"
    using q y2 assms(4,5) by simp_all
  ultimately show ?thesis
    using True assms(2,3) by (simp add: quadratic_interpolate_def)
next
  case False
  with assms(1) have x1: "0 < x1" by simp
  define d where "d = x1 * x2 * (x2 - x1)"
  define a where "a = (x1 * y2 - x2 * y1) / d"
  define b where "b = (x2 ^ 2 * y1 - x1 ^ 2 * y2) / d"
  have d: "d \<noteq> 0"
    using x1 assms(2) by (simp add: d_def)
  have a: "a \<noteq> 0"
    using assms(6) False d by (simp add: a_def)
  have fit: "a * x1 ^ 2 + b * x1 = y1" "a * x2 ^ 2 + b * x2 = y2"
    unfolding a_def b_def d_def by (rule interpolate_fit [OF x1 assms(2)])+
  from root_inside [OF a x1 assms(2) fit assms(3-5)]
  have "0 \<le> 4 * a * t + b ^ 2" and "x1 < (sqrt (4 * a * t + b ^ 2) - b) / (2 * a)"
    and "(sqrt (4 * a * t + b ^ 2) - b) / (2 * a) < x2" .
  moreover have "quadratic_interpolate x1 y1 x2 y2 t =
      (if 4 * a * t + b ^ 2 < 0 then Inl ValueError
       else if 2 * a = 0 then Inl ZeroDivisionError
       else Inr ((sqrt (4 * a * t + b ^ 2) - b) / (2 * a)))"
    using False assms(1-5) d
    by (simp add: quadratic_interpolate_def Let_def a_def b_def d_def)
  ultimately show ?thesis
    using a by simp
qed

subsection \<open>The interpolation step divides by zero\<close>

text \<open>
  The input: the tree of \<^verbatim>\<open>test_quad_tree_small\<close>, the centroid \<open>(0, 0)\<close>, the initial
  radius \<^verbatim>\<open>tree.max_radius() / 4\<close> and the target \<open>3\<close>. The points lie at the distances
  \<open>0\<close>, \<open>sqrt 2 / 2\<close>, \<open>sqrt 2\<close> and \<open>sqrt 2\<close> of the centroid, so the counts a radius can
  reach are \<open>1\<close>, \<open>2\<close> and \<open>4\<close>: the target \<open>3\<close> is unreachable. The initial radius
  \<open>sqrt 2 / 4\<close> finds one point, the whole tree has four, and the bracket
  \<open>(sqrt 2 / 4, 1)\<close>, \<open>(sqrt 2, 4)\<close> lies on a line through the origin.
\<close>

lemma small_tree_max_radius: "max_radius small_tree = sqrt 2"
  by (simp add: max_radius_def small_tree_def)

lemma sqrt2_bounds: "1 < sqrt 2" "sqrt 2 < 2"
  by (simp, intro real_less_lsqrt, simp_all)

lemma small_tree_near_general:
  assumes "0 \<le> r" and "r < 1 / 2"
  shows "near_points small_tree [Point 0 0] r = {Point 0 0}"
  using assms
  by (simp add: near_points_def points_in_radius_def small_tree_def in_rect_def)

lemma small_tree_near:
  "near_points small_tree [Point 0 0] (max_radius small_tree / 4) = {Point 0 0}"
  using sqrt2_bounds by (intro small_tree_near_general) (simp_all add: small_tree_max_radius)

lemma small_tree_all: "int (card (set (all_points small_tree))) = 4"
  by (simp add: small_tree_def)

lemma small_tree_bracket:
  "0 \<le> max_radius small_tree / 4"
  "max_radius small_tree - max_radius small_tree / 4 > 1 / 1000000"
proof -
  have "0 \<le> s / 4 \<and> s - s / 4 > 1 / 1000000" if "1 < s" for s :: real
    using that by linarith
  from this [OF sqrt2_bounds(1)]
  show "0 \<le> max_radius small_tree / 4"
    and "max_radius small_tree - max_radius small_tree / 4 > 1 / 1000000"
    by (simp_all only: small_tree_max_radius)
qed

lemma small_tree_interpolate:
  "quadratic_interpolate (max_radius small_tree / 4) 1 (max_radius small_tree) 4 3
     = Inl ZeroDivisionError"
  by (simp add: quadratic_interpolate_def small_tree_max_radius Let_def)

text \<open>
  C7. The claim: under the loop's invariant (\<open>lowCount < targetCount < highCount\<close>,
  \<open>lowRadius \<ge> 0\<close>, \<open>highRadius - lowRadius > 1e-6\<close>) the trial radius returned by
  \<^verbatim>\<open>_quadratic_interpolate\<close> lies strictly inside the bracket.

  In the first iteration of the loop on the input above the invariant holds and
  \<^verbatim>\<open>_quadratic_interpolate\<close> returns no trial radius: it raises \<^verbatim>\<open>ZeroDivisionError\<close>.
\<close>

theorem interpolation_fails_within_bracket:
  "int (card (near_points small_tree [Point 0 0] (max_radius small_tree / 4))) = 1
   \<and> int (card (set (all_points small_tree))) = 4
   \<and> (1::int) < 3 \<and> (3::int) < 4
   \<and> 0 \<le> max_radius small_tree / 4
   \<and> max_radius small_tree - max_radius small_tree / 4 > 1 / 1000000
   \<and> quadratic_interpolate (max_radius small_tree / 4) (of_int 1) (max_radius small_tree)
         (of_int 4) (of_int 3) = Inl ZeroDivisionError"
  using small_tree_bracket small_tree_interpolate
  by (simp add: small_tree_near small_tree_all)

text \<open>
  When the bracket is narrower than \<open>1e-6\<close> the loop writes the warning and returns
  the upper end of the bracket with its count.
\<close>

lemma newton_loop_exhausted:
  assumes "\<not> high_radius - low_radius > 1 / 1000000"
  shows "newton_loop tree centroids target_count low_radius low_count high_radius high_count out
    = Some (out @ [Warning], Inr (high_radius, Count high_count))"
  using assms by (subst newton_loop.simps) simp

text \<open>
  C8. The claim: \<^verbatim>\<open>newton_search\<close> terminates, never raises a hard failure for an
  unreachable exact target, and returns the best-effort pair with a warning when the
  bracket is exhausted.

  On the input above, whose target is unreachable, \<^verbatim>\<open>newton_search\<close> raises
  \<^verbatim>\<open>ZeroDivisionError\<close> in the first iteration of the loop, before anything is written
  to \<^verbatim>\<open>sys.stderr\<close>.
\<close>

theorem newton_search_zero_division:
  "newton_search small_tree [Point 0 0] (max_radius small_tree / 4) 3
     = Some ([], Inl ZeroDivisionError)"
proof -
  have "newton_loop small_tree [Point 0 0] 3 (max_radius small_tree / 4) 1
      (max_radius small_tree) 4 [] = Some ([], Inl ZeroDivisionError)"
    using small_tree_bracket(2)
    by (subst newton_loop.simps) (simp add: small_tree_interpolate)
  then show ?thesis
    by (simp add: newton_search_def small_tree_near small_tree_all)
qed

subsection \<open>The degenerate request\<close>

text \<open>
  For a positive target every pair \<^verbatim>\<open>newton_search\<close> returns holds a count; for a
  target \<open>\<le> 0\<close> it holds the set that \<^verbatim>\<open>near_points\<close> returns at radius \<open>0\<close>.
\<close>

lemma newton_loop_returns_count:
  assumes "newton_loop tree centroids target_count low_radius low_count high_radius high_count out
    = Some (out', Inr (r, v))"
  shows "\<exists>n. v = Count n"
proof -
  have "\<forall>out' r v. y = (out', Inr (r, v)) \<longrightarrow> (\<exists>n. v = Count n)"
    if "newton_loop tree centroids target_count low_radius low_count high_radius high_count out
      = Some y" for y
    using that
  proof (induction rule: newton_loop.raw_induct [rotated, consumes 1])
    case (1 newton_loop' tree centroids target_count low_radius low_count high_radius high_count out y)
    show ?case
      using "1.IH" "1.hyps"
      by (auto split: if_splits sum.splits simp: Let_def)
  qed
  with assms show ?thesis by blast
qed

lemma newton_search_returns_count:
  assumes "0 < target_count"
    and "newton_search tree centroids radius target_count = Some (out, Inr (r, v))"
  shows "\<exists>n. v = Count n"
  using assms newton_loop_returns_count
  by (auto simp: newton_search_def Let_def split: if_splits)

lemma newton_search_degenerate:
  assumes "target_count \<le> 0"
  shows "newton_search tree centroids radius target_count
    = Some ([], Inr (0, Points (near_points tree centroids 0)))"
  using assms by (simp add: newton_search_def)


lemma scenario_near_zero: "near_points scenario_tree [Point 4 4] 0 = {Point 4 4}"
  by (simp add: near_points_def points_in_radius_def scenario_tree_def in_rect_def)

text \<open>
  C9. The claim: the second component of the pair \<^verbatim>\<open>newton_search\<close> returns is the
  achieved match count, and for \<open>targetCount \<le> 0\<close> the pair is \<open>0\<close> and the result of
  \<^verbatim>\<open>near_points(tree, centroids, 0)\<close>.

  For \<open>target_count \<le> 0\<close> line 220 returns the set of points itself, not its size: on
  the tree of \<^verbatim>\<open>test_newton_search\<close> with the centroid \<open>(4, 4)\<close> the second component
  is the set \<open>{(4, 4)}\<close> where every other \<^verbatim>\<open>return\<close> of the function gives a
  \<^verbatim>\<open>len(...)\<close>.
\<close>

theorem newton_search_degenerate_returns_set:
  "newton_search scenario_tree [Point 4 4] 7 0 = Some ([], Inr (0, Points {Point 4 4}))"
  by (simp add: newton_search_def scenario_near_zero)


end
